theory Spec2Isabelle
  imports Complex_Main "HOL-Library.Sublist"
begin

unbundle bit_operations_syntax

section \<open>Permit Sheriff: the dashboard script \<^verbatim>\<open>App.py\<close>\<close>

text \<open>
  The program is one Streamlit script. Streamlit runs the whole script from top to bottom
  on every interaction; between two runs only \<^verbatim>\<open>st.session_state\<close> survives. One run of
  the script is modelled as a function from the session state, the widget values of that
  run and the clock readings of that run to the new session state and what the page shows.

  Strings are byte strings (a Python \<^verbatim>\<open>str\<close> is its UTF-8 encoding, so \<^verbatim>\<open>.encode()\<close> is the
  identity), Python integers are \<^typ>\<open>int\<close>. The two cells of line 203 are read as Python
  integers, as the fixture has them, so \<^verbatim>\<open>Days Open / Statute Limit\<close> is Python's true division
  of two integers: it raises on a zero divisor, returns the binary64 float nearest to the
  exact quotient, and raises when that float is out of range. A float is modelled by the
  rational number it denotes. The metric tiles (lines 173--181) show the sizes of the two frames and
  the sum of the refunds of the fixture; they and the one-second sleeps of the status
  animation are not modelled.
\<close>

subsection \<open>Errors a run can raise\<close>

datatype py_error = ZeroDivisionError | OverflowError | IndexError

subsection \<open>Permit rows (lines 47--90)\<close>

record permit =
  Permit_ID :: string
  Address :: string
  Type :: string
  Submitted :: string
  Status :: string
  Statute_Limit :: int
  Days_Open :: int
  Violation :: bool
  Refund_Owed :: string

text \<open>The column labels of the data frame, in the order of the dictionaries' keys.\<close>

definition columns :: "string list" where
  "columns = [''Permit ID'', ''Address'', ''Type'', ''Submitted'', ''Status'',
     ''Statute Limit'', ''Days Open'', ''Violation'', ''Refund Owed'']"

text \<open>
  \<^verbatim>\<open>get_permit_data\<close>. The argument renders the date \<open>n\<close> days before now as
  \<^verbatim>\<open>%Y-%m-%d\<close>: the calendar is the library's, not the program's.
\<close>

definition get_permit_data :: "(int \<Rightarrow> string) \<Rightarrow> permit list" where
  "get_permit_data days_ago =
     [\<lparr>Permit_ID = ''MIA-24-001'', Address = ''120 Ocean Dr, Miami'',
       Type = ''Residential Reno'', Submitted = days_ago 45, Status = ''Under Review'',
       Statute_Limit = 30, Days_Open = 45, Violation = True, Refund_Owed = ''$450.00''\<rparr>,
      \<lparr>Permit_ID = ''MIA-24-009'', Address = ''88 Biscayne Blvd'',
       Type = ''Commercial HVAC'', Submitted = days_ago 5, Status = ''In-Take'',
       Statute_Limit = 10, Days_Open = 5, Violation = False, Refund_Owed = ''$0.00''\<rparr>,
      \<lparr>Permit_ID = ''JAX-24-882'', Address = ''400 Bay St, Jax'',
       Type = ''New Construction'', Submitted = days_ago 62, Status = ''Comments Pending'',
       Statute_Limit = 45, Days_Open = 62, Violation = True, Refund_Owed = ''$1,200.00''\<rparr>]"

text \<open>Line 172: \<^verbatim>\<open>violations = df[df["Violation"] == True]\<close>.\<close>

definition violations :: "permit list \<Rightarrow> permit list" where
  "violations df = filter Violation df"

subsection \<open>Row colouring (lines 200--211)\<close>

text \<open>
  Python's \<^verbatim>\<open>/\<close> on two integers. The result is the exact quotient rounded once to
  binary64, to the nearest float and to the even one of two nearest floats.

  \<^verbatim>\<open>int.bit_length\<close>: the number of binary digits of a natural number.
\<close>

function bit_length :: "nat \<Rightarrow> nat" where
  "bit_length n = (if n = 0 then 0 else Suc (bit_length (n div 2)))"
  by pat_completeness auto
termination
  by (relation "measure id") auto

declare bit_length.simps [simp del]

text \<open>
  The binary exponent of the quotient of two positive integers: the \<open>k\<close> with
  \<open>2\<^sup>k \<le> a / b < 2\<^sup>k\<^sup>+\<^sup>1\<close>. The difference of the bit lengths is \<open>k\<close> or \<open>k + 1\<close>.
\<close>

definition exponent :: "nat \<Rightarrow> nat \<Rightarrow> int" where
  "exponent a b =
     (let d = int (bit_length a) - int (bit_length b)
      in if (of_nat b :: rat) * 2 powi d \<le> of_nat a then d else d - 1)"

text \<open>Rounding to the nearest integer, a half to the even neighbour.\<close>

definition round_half_even :: "rat \<Rightarrow> int" where
  "round_half_even r =
     (let n = \<lfloor>r\<rfloor>; f = r - of_int n
      in if f < 1 / 2 then n else if 1 / 2 < f then n + 1 else if even n then n else n + 1)"

text \<open>
  The float nearest to \<open>a / b\<close>. Floats with exponent \<open>k\<close> are the multiples of
  \<open>2\<^sup>k\<^sup>-\<^sup>5\<^sup>2\<close> (53 significant bits); below \<open>2\<^sup>-\<^sup>1\<^sup>0\<^sup>2\<^sup>2\<close> they are the multiples of
  \<open>2\<^sup>-\<^sup>1\<^sup>0\<^sup>7\<^sup>4\<close>.
\<close>

definition float_quotient :: "int \<Rightarrow> int \<Rightarrow> rat" where
  "float_quotient a b =
     (if a = 0 then 0
      else let x = (of_int a / of_int b :: rat);
               p = max (exponent (nat \<bar>a\<bar>) (nat \<bar>b\<bar>)) (- 1022) - 52
           in sgn x * of_int (round_half_even (\<bar>x\<bar> / 2 powi p)) * 2 powi p)"

text \<open>
  A zero divisor raises \<^verbatim>\<open>ZeroDivisionError\<close>; a quotient that rounds to \<open>2\<^sup>1\<^sup>0\<^sup>2\<^sup>4\<close> or more
  in absolute value is no float and raises \<^verbatim>\<open>OverflowError\<close>.
\<close>

definition truediv :: "int \<Rightarrow> int \<Rightarrow> py_error + rat" where
  "truediv a b =
     (if b = 0 then Inl ZeroDivisionError
      else let q = float_quotient a b
           in if 2 ^ 1024 \<le> \<bar>q\<bar> then Inl OverflowError else Inr q)"

text \<open>
  The literal \<^verbatim>\<open>0.8\<close> of line 207 is the float nearest to \<open>4 / 5\<close>,
  \<^verbatim>\<open>0x1.999999999999ap-1\<close>, a little above \<open>4 / 5\<close>.
\<close>

definition float_0_8 :: rat where
  "float_0_8 = 3602879701896397 / 4503599627370496"

definition red :: string where
  "red = ''background-color: #ffcccc''"

definition yellow :: string where
  "yellow = ''background-color: #fff4cc''"

definition green :: string where
  "green = ''background-color: #ccffcc''"

text \<open>
  \<^verbatim>\<open>highlight_violation\<close>: the ratio is computed first, then one style per column label
  is appended; the three branches do not depend on the label.
\<close>

definition highlight_violation :: "permit \<Rightarrow> py_error + string list" where
  "highlight_violation row =
     (case truediv (Days_Open row) (Statute_Limit row) of
        Inl e \<Rightarrow> Inl e
      | Inr ratio \<Rightarrow>
          Inr (map (\<lambda>_. if Violation row then red
                         else if ratio > float_0_8 then yellow
                         else green) columns))"

text \<open>
  \<^verbatim>\<open>df.style.apply(highlight_violation, axis=1)\<close>, rendered by \<^verbatim>\<open>st.dataframe\<close>: the rows
  are styled in order and the first exception ends the run.
\<close>

fun style_rows :: "permit list \<Rightarrow> py_error + string list list" where
  "style_rows [] = Inr []"
| "style_rows (row # rows) =
     (case highlight_violation row of
        Inl e \<Rightarrow> Inl e
      | Inr st \<Rightarrow> (case style_rows rows of Inl e \<Rightarrow> Inl e | Inr sts \<Rightarrow> Inr (st # sts)))"

subsection \<open>SHA-256 (line 95)\<close>

text \<open>
  \<^verbatim>\<open>hashlib.sha256(content.encode()).hexdigest()\<close>. The digest is the one of FIPS 180-4,
  written out here on 32-bit words kept as natural numbers below \<open>2\<^sup>3\<^sup>2\<close>, the
  wrap-around of every addition explicit. The round constants and the initial hash
  value are written in decimal.
\<close>

type_synonym u32 = nat

definition add32 :: "u32 \<Rightarrow> u32 \<Rightarrow> u32" where
  "add32 x y = take_bit 32 (x + y)"

definition rotr :: "nat \<Rightarrow> u32 \<Rightarrow> u32" where
  "rotr n x = drop_bit n x OR push_bit (32 - n) (take_bit n x)"

definition shr :: "nat \<Rightarrow> u32 \<Rightarrow> u32" where
  "shr n x = drop_bit n x"

definition not32 :: "u32 \<Rightarrow> u32" where
  "not32 x = x XOR 4294967295"

definition Ch :: "u32 \<Rightarrow> u32 \<Rightarrow> u32 \<Rightarrow> u32" where
  "Ch x y z = (x AND y) XOR (not32 x AND z)"

definition Maj :: "u32 \<Rightarrow> u32 \<Rightarrow> u32 \<Rightarrow> u32" where
  "Maj x y z = (x AND y) XOR (x AND z) XOR (y AND z)"

definition Sigma0 :: "u32 \<Rightarrow> u32" where
  "Sigma0 x = rotr 2 x XOR rotr 13 x XOR rotr 22 x"

definition Sigma1 :: "u32 \<Rightarrow> u32" where
  "Sigma1 x = rotr 6 x XOR rotr 11 x XOR rotr 25 x"

definition sigma0 :: "u32 \<Rightarrow> u32" where
  "sigma0 x = rotr 7 x XOR rotr 18 x XOR shr 3 x"

definition sigma1 :: "u32 \<Rightarrow> u32" where
  "sigma1 x = rotr 17 x XOR rotr 19 x XOR shr 10 x"

definition K256 :: "u32 list" where
  "K256 =
    [1116352408, 1899447441, 3049323471, 3921009573, 961987163, 1508970993, 2453635748,
     2870763221, 3624381080, 310598401, 607225278, 1426881987, 1925078388, 2162078206,
     2614888103, 3248222580, 3835390401, 4022224774, 264347078, 604807628, 770255983,
     1249150122, 1555081692, 1996064986, 2554220882, 2821834349, 2952996808, 3210313671,
     3336571891, 3584528711, 113926993, 338241895, 666307205, 773529912, 1294757372,
     1396182291, 1695183700, 1986661051, 2177026350, 2456956037, 2730485921, 2820302411,
     3259730800, 3345764771, 3516065817, 3600352804, 4094571909, 275423344, 430227734,
     506948616, 659060556, 883997877, 958139571, 1322822218, 1537002063, 1747873779,
     1955562222, 2024104815, 2227730452, 2361852424, 2428436474, 2756734187, 3204031479,
     3329325298]"

type_synonym hstate = "u32 \<times> u32 \<times> u32 \<times> u32 \<times> u32 \<times> u32 \<times> u32 \<times> u32"

definition H0 :: hstate where
  "H0 = (1779033703, 3144134277, 1013904242, 2773480762,
         1359893119, 2600822924, 528734635, 1541459225)"

text \<open>The sixteen big-endian words of a 64-byte block.\<close>

fun be_words :: "nat list \<Rightarrow> u32 list" where
  "be_words (b0 # b1 # b2 # b3 # bs) =
     (16777216 * b0 + 65536 * b1 + 256 * b2 + b3) # be_words bs"
| "be_words _ = []"

fun round256 :: "hstate \<Rightarrow> u32 \<Rightarrow> u32 \<Rightarrow> hstate" where
  "round256 (a, b, c, d, e, f, g, h) k w =
     (let t1 = add32 (add32 (add32 (add32 h (Sigma1 e)) (Ch e f g)) k) w;
          t2 = add32 (Sigma0 a) (Maj a b c)
      in (add32 t1 t2, a, b, c, add32 d t1, e, f, g))"

text \<open>
  The 64 rounds, one per constant. \<open>w\<close> is the window of the last sixteen words of the
  message schedule: its head is the word of this round, and the next word of the
  schedule is appended behind it.
\<close>

fun rounds :: "u32 list \<Rightarrow> u32 list \<Rightarrow> hstate \<Rightarrow> hstate" where
  "rounds [] w s = s"
| "rounds (k # ks) w s =
     rounds ks
       (tl w @ [add32 (add32 (add32 (sigma1 (w ! 14)) (w ! 9)) (sigma0 (w ! 1))) (w ! 0)])
       (round256 s k (w ! 0))"

fun add_state :: "hstate \<Rightarrow> hstate \<Rightarrow> hstate" where
  "add_state (a, b, c, d, e, f, g, h) (a', b', c', d', e', f', g', h') =
     (add32 a a', add32 b b', add32 c c', add32 d d',
      add32 e e', add32 f f', add32 g g', add32 h h')"

definition compress :: "hstate \<Rightarrow> nat list \<Rightarrow> hstate" where
  "compress hs block = add_state hs (rounds K256 (be_words block) hs)"

function blocks :: "hstate \<Rightarrow> nat list \<Rightarrow> hstate" where
  "blocks hs bs =
     (if length bs < 64 then hs else blocks (compress hs (take 64 bs)) (drop 64 bs))"
  by pat_completeness auto
termination
  by (relation "measure (\<lambda>(hs, bs). length bs)") auto

declare blocks.simps [simp del]

text \<open>The message length in bits, as eight big-endian bytes.\<close>

definition be64 :: "nat \<Rightarrow> nat list" where
  "be64 n = map (\<lambda>i. (n div 256 ^ i) mod 256) [7, 6, 5, 4, 3, 2, 1, 0]"

definition pad :: "nat list \<Rightarrow> nat list" where
  "pad m = m @ [128] @ replicate ((119 - length m mod 64) mod 64) 0 @ be64 (8 * length m)"

definition hex_digit :: "nat \<Rightarrow> char" where
  "hex_digit n = ''0123456789abcdef'' ! (n mod 16)"

definition hex32 :: "u32 \<Rightarrow> string" where
  "hex32 w = map (\<lambda>i. hex_digit (w div 16 ^ i)) [7, 6, 5, 4, 3, 2, 1, 0]"

fun hexdigest :: "hstate \<Rightarrow> string" where
  "hexdigest (a, b, c, d, e, f, g, h) =
     hex32 a @ hex32 b @ hex32 c @ hex32 d @ hex32 e @ hex32 f @ hex32 g @ hex32 h"

definition sha256 :: "nat list \<Rightarrow> hstate" where
  "sha256 m = blocks H0 (pad m)"

definition hash_data :: "string \<Rightarrow> string" where
  "hash_data content = hexdigest (sha256 (map of_char content))"

subsection \<open>The demand letter (lines 98--120)\<close>

text \<open>Python's \<^verbatim>\<open>str\<close> of an integer, as the f-string formats the two day counts.\<close>

definition digit_char :: "nat \<Rightarrow> char" where
  "digit_char n = ''0123456789'' ! (n mod 10)"

function str_nat :: "nat \<Rightarrow> string" where
  "str_nat n = (if n < 10 then [digit_char n] else str_nat (n div 10) @ [digit_char n])"
  by pat_completeness auto
termination
  by (relation "measure id") auto

declare str_nat.simps [simp del]

definition str_int :: "int \<Rightarrow> string" where
  "str_int i = (if i < 0 then ''-'' @ str_nat (nat (- i)) else str_nat (nat i))"

text \<open>
  \<^verbatim>\<open>generate_letter_text\<close>. The second argument is the clock reading
  \<^verbatim>\<open>datetime.now().strftime('%B %d, %Y')\<close>. Every line of the template ends with a
  newline.
\<close>

definition generate_letter_text :: "permit \<Rightarrow> string \<Rightarrow> string" where
  "generate_letter_text permit_row today =
     concat (map (\<lambda>l. l @ ''\<newline>'')
       [''DEMAND FOR REMEDY PURSUANT TO FLORIDA STATUTE 553.79'',
        '''',
        ''TO: Building Official, City Permitting Department'',
        ''RE: Permit Application #'' @ Permit_ID permit_row,
        ''DATE: '' @ today,
        '''',
        ''NOTICE OF STATUTORY VIOLATION'',
        '''',
        ''This letter serves as formal notice that the review period for Permit #''
          @ Permit_ID permit_row @ '' at '' @ Address permit_row
          @ '' has exceeded the mandatory statutory limit of ''
          @ str_int (Statute_Limit permit_row) @ '' days.'',
        '''',
        ''Current Status: '' @ str_int (Days_Open permit_row) @ '' days elapsed.'',
        '''',
        ''Pursuant to state law, we hereby demand:'',
        ''1. Immediate refund of '' @ Refund_Owed permit_row @ '' (10% of permit fees).'',
        ''2. Immediate issuance of the permit or specific written cause for delay.'',
        '''',
        ''This notice has been cryptographically timestamped on-chain. Failure to respond may result in legal escalation.'',
        '''',
        ''Sincerely,'',
        ''Permit Sheriff Enforcement Agent''])"

subsection \<open>The PDF (lines 123--149)\<close>

text \<open>
  FPDF lays the cells out and serialises them; the model keeps the texts of the four
  cells the function writes, in the order it writes them. \<^verbatim>\<open>str.strip\<close> removes ASCII
  white space at both ends. The last argument is the clock reading
  \<^verbatim>\<open>datetime.now().isoformat()\<close> of line 145.
\<close>

record pdf_letter =
  pdf_header :: string
  pdf_body :: string
  pdf_proof :: string
  pdf_timestamp :: string

definition is_space :: "char \<Rightarrow> bool" where
  "is_space c = (c \<in> set [CHR 0x09, CHR 0x0A, CHR 0x0B, CHR 0x0C, CHR 0x0D,
                            CHR 0x1C, CHR 0x1D, CHR 0x1E, CHR 0x1F, CHR 0x20])"

definition strip :: "string \<Rightarrow> string" where
  "strip s = rev (dropWhile is_space (rev (dropWhile is_space s)))"

definition create_pdf_letter :: "permit \<Rightarrow> string \<Rightarrow> string \<Rightarrow> string \<Rightarrow> pdf_letter" where
  "create_pdf_letter permit_row letter_text tx_hash now_iso =
     \<lparr>pdf_header = ''PERMIT SHERIFF ENFORCEMENT'',
      pdf_body = strip letter_text,
      pdf_proof = ''CRYPTOGRAPHIC PROOF: '' @ tx_hash,
      pdf_timestamp = ''TIMESTAMP: '' @ now_iso\<rparr>"

subsection \<open>Session state (lines 12--17)\<close>

text \<open>The dictionaries appended to \<^verbatim>\<open>enforcement_log\<close> (lines 296--303).\<close>

record log_entry =
  entry_Permit_ID :: string
  entry_Address :: string
  entry_Time :: string
  entry_Hash :: string

record session_state =
  trigger :: bool
  selected_id :: "string option"
  enforcement_log :: "log_entry list"

text \<open>
  A new session has none of the three keys and the first run stores these values; in
  every later run the keys exist and lines 12--17 do nothing.
\<close>

definition fresh_session :: session_state where
  "fresh_session = \<lparr>trigger = False, selected_id = None, enforcement_log = []\<rparr>"

subsection \<open>What one run reads from outside\<close>

text \<open>
  The widget values of one run: the option chosen in the select box (by position) and
  the value each of the two buttons returns. Which values Streamlit hands to a run is
  not the script's business: the model admits every combination.
\<close>

record ui_input =
  chosen :: nat
  trigger_sheriff :: bool
  start_over :: bool

text \<open>
  The clock readings of one run, each as the string the script makes of it:
  \<^verbatim>\<open>(datetime.now() - timedelta(days=n)).strftime("%Y-%m-%d")\<close> (lines 54, 67, 80),
  \<^verbatim>\<open>datetime.now().strftime('%B %d, %Y')\<close> (line 104), \<^verbatim>\<open>str(time.time())\<close> (line 271),
  \<^verbatim>\<open>datetime.now().isoformat()\<close> (line 145) and
  \<^verbatim>\<open>datetime.now().strftime("%Y-%m-%d %H:%M")\<close> (line 300).
\<close>

record clock =
  now_days_ago :: "int \<Rightarrow> string"
  now_letter_date :: string
  now_time_time :: string
  now_isoformat :: string
  now_log_time :: string

subsection \<open>What one run shows\<close>

record package =
  pkg_letter :: string
  pkg_hash :: string
  pkg_pdf :: pdf_letter
  pkg_file_name :: string

datatype right_panel = Waiting | Package package

text \<open>
  \<open>styles\<close>: the colours of the watchlist; \<open>target\<close>: the permit of the info box of the
  left column (\<open>None\<close> when the warning is shown instead); \<open>right\<close>: the right column;
  \<open>history\<close>: the enforcement history (\<open>None\<close> when \<^verbatim>\<open>st.rerun()\<close> ended the run before
  the history was drawn).
\<close>

record page =
  styles :: "string list list"
  target :: "permit option"
  right :: right_panel
  history :: "log_entry list option"

subsection \<open>The enforcement center (lines 222--322)\<close>

text \<open>
  \<^verbatim>\<open>st.selectbox\<close> returns one of its options: the chosen one, and the first one when
  nothing valid is chosen. The script calls it with a non-empty list only.
\<close>

definition selectbox :: "string list \<Rightarrow> nat \<Rightarrow> string" where
  "selectbox options i = options ! (if i < length options then i else 0)"

text \<open>\<^verbatim>\<open>.iloc[0]\<close> raises on an empty frame.\<close>

definition iloc0 :: "'a list \<Rightarrow> py_error + 'a" where
  "iloc0 xs = (case xs of [] \<Rightarrow> Inl IndexError | x # _ \<Rightarrow> Inr x)"

text \<open>Lines 246--248: the trigger button stores the flag and the id of the selection.\<close>

definition press_trigger :: "bool \<Rightarrow> string \<Rightarrow> session_state \<Rightarrow> session_state" where
  "press_trigger clicked selected_permit_id s =
     (if clicked then s\<lparr>trigger := True, selected_id := Some selected_permit_id\<rparr> else s)"

text \<open>
  Lines 252--257, in the branch where a permit is selected and its row was found: the
  flag is set and the remembered id is the id selected in this run.
\<close>

definition fires :: "session_state \<Rightarrow> string \<Rightarrow> bool" where
  "fires s selected_permit_id = (trigger s \<and> selected_id s = Some selected_permit_id)"

text \<open>Lines 259--293: draft the letter, hash it with the time, make the PDF.\<close>

definition enforce :: "clock \<Rightarrow> permit \<Rightarrow> string \<Rightarrow> package" where
  "enforce clk target_permit selected_permit_id =
     (let letter_text = generate_letter_text target_permit (now_letter_date clk);
          tx_hash = hash_data (letter_text @ now_time_time clk);
          pdf_data = create_pdf_letter target_permit letter_text tx_hash (now_isoformat clk)
      in \<lparr>pkg_letter = letter_text, pkg_hash = tx_hash, pkg_pdf = pdf_data,
          pkg_file_name = ''LEGAL_DEMAND_'' @ selected_permit_id @ ''.pdf''\<rparr>)"

text \<open>Lines 296--303.\<close>

definition new_entry :: "clock \<Rightarrow> permit \<Rightarrow> string \<Rightarrow> string \<Rightarrow> log_entry" where
  "new_entry clk target_permit selected_permit_id tx_hash =
     \<lparr>entry_Permit_ID = selected_permit_id, entry_Address = Address target_permit,
      entry_Time = now_log_time clk, entry_Hash = take 12 tx_hash @ ''...''\<rparr>"

text \<open>
  The right column and the history, for a selected permit whose row was found. The
  result is the session state the run leaves and the two parts of the page.
\<close>

definition right_column ::
  "clock \<Rightarrow> ui_input \<Rightarrow> session_state \<Rightarrow> string \<Rightarrow> permit
     \<Rightarrow> session_state \<times> right_panel \<times> log_entry list option" where
  "right_column clk ui s selected_permit_id target_permit =
     (if fires s selected_permit_id then
        (let pkg = enforce clk target_permit selected_permit_id;
             s1 = s\<lparr>enforcement_log := enforcement_log s
                      @ [new_entry clk target_permit selected_permit_id (pkg_hash pkg)]\<rparr>;
             s2 = s1\<lparr>trigger := False\<rparr>
         in if start_over ui
            then (s2\<lparr>trigger := False, selected_id := None\<rparr>, Package pkg, None)
            else (s2, Package pkg, Some (enforcement_log s2)))
      else (s, Waiting, Some (enforcement_log s)))"

subsection \<open>One run of the script\<close>

text \<open>
  The run starts from any session state: besides the states complete runs leave, a run
  that ends after line 248 and before line 306 (an exception in between, or Streamlit
  stopping the run because the operator touched a widget during the animation) leaves
  the flag set with the id it stored.
\<close>

definition app :: "clock \<Rightarrow> session_state \<Rightarrow> ui_input \<Rightarrow> py_error + session_state \<times> page" where
  "app clk s ui =
     (let df = get_permit_data (now_days_ago clk) in
      case style_rows df of
        Inl e \<Rightarrow> Inl e
      | Inr sty \<Rightarrow>
          if violations df = [] then
            Inr (s, \<lparr>styles = sty, target = None, right = Waiting,
                     history = Some (enforcement_log s)\<rparr>)
          else
            (let selected_permit_id = selectbox (map Permit_ID (violations df)) (chosen ui) in
             case iloc0 (filter (\<lambda>r. Permit_ID r = selected_permit_id) df) of
               Inl e \<Rightarrow> Inl e
             | Inr target_permit \<Rightarrow>
                 (let s1 = press_trigger (trigger_sheriff ui) selected_permit_id s;
                      (s2, panel, hist) = right_column clk ui s1 selected_permit_id target_permit
                  in Inr (s2, \<lparr>styles = sty, target = Some target_permit, right = panel,
                               history = hist\<rparr>))))"

text \<open>A session: the runs one after the other, each on the state the last one left.\<close>

fun run_session ::
  "session_state \<Rightarrow> (clock \<times> ui_input) list \<Rightarrow> py_error + session_state \<times> page list" where
  "run_session s [] = Inr (s, [])"
| "run_session s ((clk, ui) # evs) =
     (case app clk s ui of
        Inl e \<Rightarrow> Inl e
      | Inr (s', p) \<Rightarrow>
          (case run_session s' evs of
             Inl e \<Rightarrow> Inl e
           | Inr (s'', ps) \<Rightarrow> Inr (s'', p # ps)))"

subsection \<open>Notions used in the statements\<close>

text \<open>The permit id the select box returns in a run.\<close>

definition current_selection :: "clock \<Rightarrow> ui_input \<Rightarrow> string" where
  "current_selection clk ui =
     selectbox (map Permit_ID (violations (get_permit_data (now_days_ago clk)))) (chosen ui)"

text \<open>A run completed an enforcement cycle when its right column shows the package.\<close>

definition completed :: "page \<Rightarrow> bool" where
  "completed p = (right p \<noteq> Waiting)"

text \<open>
  The ledger record of a run: permit id and address of the target, the time of
  completion and the first twelve digits of the proof, and nothing for a run that
  completed no cycle.
\<close>

definition cycle_record :: "clock \<Rightarrow> page \<Rightarrow> log_entry list" where
  "cycle_record clk p =
     (case (right p, target p) of
        (Package pkg, Some t) \<Rightarrow>
          [\<lparr>entry_Permit_ID = Permit_ID t, entry_Address = Address t,
            entry_Time = now_log_time clk, entry_Hash = take 12 (pkg_hash pkg) @ ''...''\<rparr>]
      | _ \<Rightarrow> [])"

text \<open>The clock readings of a run on 4 November 2026, a quarter past ten.\<close>

definition clock_example :: clock where
  "clock_example =
     \<lparr>now_days_ago = (\<lambda>n. if n = 45 then ''2026-09-20''
                           else if n = 5 then ''2026-10-30'' else ''2026-09-03''),
      now_letter_date = ''November 04, 2026'',
      now_time_time = ''1793787303.1234567'',
      now_isoformat = ''2026-11-04T10:15:03.130001'',
      now_log_time = ''2026-11-04 10:15''\<rparr>"

text \<open>A session of three runs: enforce the first permit, look at the second, enforce it.\<close>

definition session_example :: "(clock \<times> ui_input) list" where
  "session_example =
     [(clock_example, \<lparr>chosen = 0, trigger_sheriff = True, start_over = False\<rparr>),
      (clock_example, \<lparr>chosen = 1, trigger_sheriff = False, start_over = False\<rparr>),
      (clock_example, \<lparr>chosen = 1, trigger_sheriff = True, start_over = False\<rparr>)]"




text \<open>
  A permit with a statute limit of \<open>10\<^sup>1\<^sup>7\<close> days, open one day more than eight tenths of
  the limit, and not flagged.
\<close>

definition row_rounded :: permit where
  "row_rounded =
     \<lparr>Permit_ID = ''MIA-24-009'', Address = ''88 Biscayne Blvd'', Type = ''Commercial HVAC'',
      Submitted = ''2026-10-30'', Status = ''In-Take'', Statute_Limit = 100000000000000000,
      Days_Open = 80000000000000001, Violation = False, Refund_Owed = ''$0.00''\<rparr>"

section \<open>Properties\<close>

subsection \<open>The quotient of line 203\<close>

lemma columns_const: "map (\<lambda>_. x) columns = replicate 9 x"
  by (simp add: columns_def eval_nat_numeral)

lemma style_distinct: "red \<noteq> yellow" "red \<noteq> green" "yellow \<noteq> green"
  by (simp_all add: red_def yellow_def green_def)

text \<open>The quotient of two numerals is computed by unfolding the definitions.\<close>

lemma floor_numeral_quotient:
  "\<lfloor>numeral a / numeral b :: rat\<rfloor> = numeral a div numeral b"
  using floor_divide_of_int_eq [of "numeral a" "numeral b", where ?'a = rat] by simp

lemmas float_eval = float_quotient_def exponent_def bit_length.simps round_half_even_def
  Let_def floor_numeral_quotient

text \<open>
  The model agrees with Python on \<^verbatim>\<open>8 / 10\<close>, which is the literal \<^verbatim>\<open>0.8\<close>, on
  \<^verbatim>\<open>1 / 3\<close>, on the two ties \<open>2\<^sup>5\<^sup>3 + 1\<close> and \<open>2\<^sup>5\<^sup>3 + 3\<close>, and on a negative quotient.
\<close>

lemma float_0_8_nearest: "float_quotient 8 10 = float_0_8"
  by (simp add: float_eval float_0_8_def)

lemma float_quotient_examples:
  "float_quotient 1 3 = 6004799503160661 / 18014398509481984"
  "float_quotient 9007199254740993 1 = 9007199254740992"
  "float_quotient 9007199254740995 1 = 9007199254740996"
  "float_quotient (- 5) 10 = - 1 / 2"
  by (simp_all add: float_eval)

text \<open>The exponent is the one of the exact quotient.\<close>

lemma bit_length_bounds:
  "0 < n \<Longrightarrow> n < 2 ^ bit_length n \<and> 2 ^ bit_length n \<le> 2 * n"
proof (induction n rule: bit_length.induct)
  case (1 n)
  have bl: "bit_length n = Suc (bit_length (n div 2))"
    using "1.prems" by (subst bit_length.simps) simp
  show ?case
  proof (cases "n div 2 = 0")
    case True
    with "1.prems" have "n = 1" by (simp add: div_eq_0_iff)
    then show ?thesis by (simp add: bit_length.simps)
  next
    case False
    with "1.IH" "1.prems"
    have ih: "n div 2 < 2 ^ bit_length (n div 2) \<and> 2 ^ bit_length (n div 2) \<le> 2 * (n div 2)"
      by simp
    have m: "n < 2 * (n div 2) + 2" by arith
    from ih have "2 ^ bit_length (n div 2) \<le> 2 * (n div 2)" by simp
    also have "\<dots> \<le> n" by simp
    finally have l: "2 ^ bit_length (n div 2) \<le> n" .
    from ih m have u: "n < 2 * 2 ^ bit_length (n div 2)" by linarith
    from l u show ?thesis unfolding bl by simp
  qed
qed

lemma bit_length_bounds_rat:
  assumes "0 < n"
  shows "(of_nat n :: rat) < 2 ^ bit_length n" and "(2 :: rat) ^ bit_length n \<le> 2 * of_nat n"
proof -
  from bit_length_bounds [OF assms]
  have a: "n < 2 ^ bit_length n" and b: "2 ^ bit_length n \<le> 2 * n" by simp_all
  from a have "(of_nat n :: rat) < of_nat (2 ^ bit_length n)"
    by (simp only: of_nat_less_iff)
  then show "(of_nat n :: rat) < 2 ^ bit_length n" by simp
  from b have "(of_nat (2 ^ bit_length n) :: rat) \<le> of_nat (2 * n)"
    by (simp only: of_nat_le_iff)
  then show "(2 :: rat) ^ bit_length n \<le> 2 * of_nat n" by simp
qed

lemma exponent_bounds:
  assumes "0 < a" and "0 < b"
  shows "2 powi exponent a b \<le> (of_nat a / of_nat b :: rat)"
    and "(of_nat a / of_nat b :: rat) < 2 powi (exponent a b + 1)"
proof -
  define A :: rat where "A = 2 ^ bit_length a"
  define B :: rat where "B = 2 ^ bit_length b"
  define x :: rat where "x = of_nat a / of_nat b"
  define d where "d = int (bit_length a) - int (bit_length b)"
  have a: "of_nat a < A" "A \<le> 2 * of_nat a"
    using bit_length_bounds_rat [OF assms(1)] by (simp_all add: A_def)
  have b: "of_nat b < B" "B \<le> 2 * of_nat b"
    using bit_length_bounds_rat [OF assms(2)] by (simp_all add: B_def)
  have pos: "0 < (of_nat a :: rat)" "0 < (of_nat b :: rat)" "0 < A" "0 < B"
    using assms by (simp_all add: A_def B_def)
  have d: "2 powi d = A / B"
    unfolding d_def A_def B_def by (simp add: power_int_diff)
  have up: "x < 2 * (A / B)"
  proof -
    have "of_nat a * B < A * (2 * of_nat b)"
      using a(1) b(2) pos by (intro mult_less_le_imp_less) simp_all
    then show ?thesis
      using pos by (simp add: x_def field_simps)
  qed
  have lo: "A / B < 2 * x"
  proof -
    have "A * of_nat b < (2 * of_nat a) * B"
      using a(2) b(1) pos by (intro mult_le_less_imp_less) simp_all
    then show ?thesis
      using pos by (simp add: x_def field_simps)
  qed
  have p1: "2 powi (d + 1) = 2 * (A / B)"
    by (simp add: power_int_add d)
  have m1: "2 powi (d - 1) = (A / B) / 2"
    by (simp add: power_int_diff d)
  have c: "((of_nat b :: rat) * 2 powi d \<le> of_nat a) = (2 powi d \<le> x)"
    using pos by (simp add: x_def field_simps)
  show "2 powi exponent a b \<le> (of_nat a / of_nat b :: rat)"
    using lo c unfolding exponent_def Let_def d_def [symmetric] x_def [symmetric]
    by (auto simp: m1 d)
  show "(of_nat a / of_nat b :: rat) < 2 powi (exponent a b + 1)"
    using up c unfolding exponent_def Let_def d_def [symmetric] x_def [symmetric]
    by (auto simp: p1 d not_le)
qed

lemma exponent_bounds_int:
  assumes "0 < a" and "0 < b"
  shows "2 powi exponent (nat a) (nat b) \<le> (of_int a / of_int b :: rat)"
    and "(of_int a / of_int b :: rat) < 2 powi (exponent (nat a) (nat b) + 1)"
  using exponent_bounds [of "nat a" "nat b"] assms by simp_all

lemma exponent_less:
  assumes "0 < a" and "0 < b" and "(of_int a / of_int b :: rat) < 2 powi m"
  shows "exponent (nat a) (nat b) < m"
proof (rule ccontr)
  assume "\<not> exponent (nat a) (nat b) < m"
  then have "(2 :: rat) powi m \<le> 2 powi exponent (nat a) (nat b)"
    by (intro power_int_increasing) simp_all
  with exponent_bounds_int(1) [OF assms(1,2)] assms(3) show False by linarith
qed

lemma exponent_ge:
  assumes "0 < a" and "0 < b" and "2 powi m \<le> (of_int a / of_int b :: rat)"
  shows "m \<le> exponent (nat a) (nat b)"
proof (rule ccontr)
  assume "\<not> m \<le> exponent (nat a) (nat b)"
  then have "(2 :: rat) powi (exponent (nat a) (nat b) + 1) \<le> 2 powi m"
    by (intro power_int_increasing) simp_all
  with exponent_bounds_int(2) [OF assms(1,2)] assms(3) show False by linarith
qed

text \<open>Rounding moves a number by at most a half and never across an integer.\<close>

lemma round_half_even_floor: "\<lfloor>r\<rfloor> \<le> round_half_even r"
  by (simp add: round_half_even_def Let_def)

lemma round_half_even_ge: "of_int m \<le> r \<Longrightarrow> m \<le> round_half_even r"
  using round_half_even_floor [of r] by (simp add: le_floor_iff [symmetric])

lemma round_half_even_le:
  assumes "r \<le> of_int m"
  shows "round_half_even r \<le> m"
proof (cases "\<lfloor>r\<rfloor> = m")
  case True
  with assms have "r - of_int \<lfloor>r\<rfloor> \<le> 0" by simp
  then have "r - of_int \<lfloor>r\<rfloor> < 1 / 2" by linarith
  with True show ?thesis by (simp add: round_half_even_def Let_def)
next
  case False
  from assms have "\<lfloor>r\<rfloor> \<le> m" by (metis floor_mono floor_of_int)
  with False have "\<lfloor>r\<rfloor> + 1 \<le> m" by simp
  then show ?thesis by (simp add: round_half_even_def Let_def)
qed

lemma round_half_even_gt:
  assumes "of_int m + 1 / 2 < r"
  shows "m + 1 \<le> round_half_even r"
proof (cases "\<lfloor>r\<rfloor> = m")
  case True
  with assms have "1 / 2 < r - of_int \<lfloor>r\<rfloor>" by simp
  then have "\<not> r - of_int \<lfloor>r\<rfloor> < 1 / 2" by linarith
  with True \<open>1 / 2 < r - of_int \<lfloor>r\<rfloor>\<close> show ?thesis
    by (simp add: round_half_even_def Let_def)
next
  case False
  from assms have "of_int m \<le> r" by linarith
  then have "m \<le> \<lfloor>r\<rfloor>" by (simp add: le_floor_iff)
  with False have "m + 1 \<le> \<lfloor>r\<rfloor>" by simp
  with round_half_even_floor [of r] show ?thesis by linarith
qed

text \<open>
  The float of a positive quotient lies between the two powers of two around the
  quotient; the sign is the sign of the quotient.
\<close>

lemma float_quotient_pos:
  assumes "0 < a" and "0 < b"
  defines "p \<equiv> max (exponent (nat a) (nat b)) (- 1022) - 52"
  shows "float_quotient a b
           = of_int (round_half_even ((of_int a / of_int b) / 2 powi p)) * 2 powi p"
  using assms(1,2) unfolding p_def by (simp add: float_quotient_def Let_def)

lemma float_quotient_upper:
  assumes "0 < a" and "0 < b"
  shows "float_quotient a b \<le> 2 powi (max (exponent (nat a) (nat b)) (- 1022) + 1)"
proof -
  define k where "k = exponent (nat a) (nat b)"
  define P where "P = max k (- 1022)"
  define p where "p = P - 52"
  define x :: rat where "x = of_int a / of_int b"
  have "x < 2 powi (k + 1)"
    unfolding x_def k_def by (rule exponent_bounds_int [OF assms])
  also have "\<dots> \<le> 2 powi (P + 1)"
    by (rule power_int_increasing) (simp_all add: P_def)
  also have "\<dots> = 2 powi 53 * 2 powi p"
    by (simp add: p_def power_int_add power_int_diff)
  finally have "x / 2 powi p < 2 powi 53"
    by (simp add: pos_divide_less_eq)
  then have "x / 2 powi p \<le> of_int (2 ^ 53)" by simp
  then have "round_half_even (x / 2 powi p) \<le> 2 ^ 53"
    by (rule round_half_even_le)
  then have "(of_int (round_half_even (x / 2 powi p)) :: rat) \<le> of_int (2 ^ 53)"
    by (simp only: of_int_le_iff)
  then have "of_int (round_half_even (x / 2 powi p)) * 2 powi p \<le> (2 powi 53 :: rat) * 2 powi p"
    by (intro mult_right_mono) simp_all
  also have "(2 powi 53 :: rat) * 2 powi p = 2 powi (P + 1)"
    by (simp add: p_def power_int_add power_int_diff)
  finally show ?thesis
    using float_quotient_pos [OF assms]
    unfolding x_def p_def P_def k_def by simp
qed

lemma float_quotient_lower:
  assumes "0 < a" and "0 < b" and "- 1022 \<le> exponent (nat a) (nat b)"
  shows "2 powi exponent (nat a) (nat b) \<le> float_quotient a b"
proof -
  define k where "k = exponent (nat a) (nat b)"
  define p where "p = k - 52"
  define x :: rat where "x = of_int a / of_int b"
  have P: "max k (- 1022) = k" using assms(3) by (simp add: k_def)
  have kp: "(2 :: rat) powi k = 2 powi 52 * 2 powi p"
    by (simp add: p_def power_int_diff)
  have "2 powi k \<le> x"
    unfolding x_def k_def by (rule exponent_bounds_int [OF assms(1,2)])
  then have "2 powi 52 \<le> x / 2 powi p"
    by (simp add: kp pos_le_divide_eq)
  then have "of_int (2 ^ 52) \<le> x / 2 powi p" by simp
  then have "2 ^ 52 \<le> round_half_even (x / 2 powi p)"
    by (rule round_half_even_ge)
  then have "(of_int (2 ^ 52) :: rat) \<le> of_int (round_half_even (x / 2 powi p))"
    by (simp only: of_int_le_iff)
  then have "(2 powi 52 :: rat) * 2 powi p \<le> of_int (round_half_even (x / 2 powi p)) * 2 powi p"
    by (intro mult_right_mono) simp_all
  then have "(2 :: rat) powi k \<le> of_int (round_half_even (x / 2 powi p)) * 2 powi p"
    by (simp only: kp)
  then show ?thesis
    unfolding float_quotient_pos [OF assms(1,2), folded k_def, unfolded P, folded p_def x_def]
      k_def [symmetric] .
qed

lemma float_quotient_sgn:
  "float_quotient a b = sgn (of_int a / of_int b :: rat) * float_quotient \<bar>a\<bar> \<bar>b\<bar>"
proof (cases "a = 0 \<or> b = 0")
  case True
  then show ?thesis by (auto simp: float_quotient_def)
next
  case False
  then have "0 < (of_int \<bar>a\<bar> / of_int \<bar>b\<bar> :: rat)" by simp
  then have s: "sgn (of_int \<bar>a\<bar> / of_int \<bar>b\<bar> :: rat) = 1" by (simp only: sgn_pos)
  have e: "\<bar>of_int \<bar>a\<bar> / of_int \<bar>b\<bar> :: rat\<bar> = \<bar>of_int a / of_int b\<bar>" by simp
  show ?thesis
    using False unfolding float_quotient_def [of "\<bar>a\<bar>" "\<bar>b\<bar>"] Let_def s e
    by (simp add: float_quotient_def Let_def)
qed

lemma float_quotient_abs:
  assumes "0 < (of_int a / of_int b :: rat)"
  shows "float_quotient a b = float_quotient \<bar>a\<bar> \<bar>b\<bar>"
proof -
  have "(of_int \<bar>a\<bar> / of_int \<bar>b\<bar> :: rat) = \<bar>of_int a / of_int b\<bar>"
    by simp
  also have "\<dots> = of_int a / of_int b"
    using assms by (rule abs_of_pos)
  finally show ?thesis
    using assms by (simp add: float_quotient_def)
qed

lemma float_quotient_nonneg:
  assumes "0 \<le> a" and "0 \<le> b"
  shows "0 \<le> float_quotient a b"
proof (cases "a = 0 \<or> b = 0")
  case True
  then show ?thesis by (auto simp: float_quotient_def)
next
  case False
  with assms have p: "0 < a" "0 < b" by simp_all
  define p where "p = max (exponent (nat a) (nat b)) (- 1022) - 52"
  have "(of_int 0 :: rat) \<le> (of_int a / of_int b) / 2 powi p"
    using p by simp
  then have "0 \<le> round_half_even ((of_int a / of_int b) / 2 powi p)"
    by (rule round_half_even_ge)
  then show ?thesis
    unfolding float_quotient_pos [OF p, folded p_def] by simp
qed

lemma float_quotient_abs_eq:
  assumes "a \<noteq> 0" and "b \<noteq> 0"
  shows "\<bar>float_quotient a b\<bar> = float_quotient \<bar>a\<bar> \<bar>b\<bar>"
proof -
  have "0 \<le> float_quotient \<bar>a\<bar> \<bar>b\<bar>" by (rule float_quotient_nonneg) simp_all
  moreover have "\<bar>sgn (of_int a / of_int b :: rat)\<bar> = 1"
    using assms by (simp add: sgn_if)
  ultimately show ?thesis
    by (subst float_quotient_sgn) (simp add: abs_mult del: sgn_divide)
qed

lemma float_quotient_exponent_m1:
  assumes "0 < a" and "0 < b" and "exponent (nat a) (nat b) = - 1"
  shows "float_quotient a b
           = of_int (round_half_even (of_int a / of_int b * 9007199254740992)) / 9007199254740992"
  using float_quotient_pos [OF assms(1,2)] assms(3) by (simp add: power_int_minus)

text \<open>
  The comparison with \<^verbatim>\<open>0.8\<close>. A quotient of at most \<open>4 / 5\<close> never rounds above the
  literal. A quotient above \<open>4 / 5\<close> exceeds it by at least \<open>1 / (5 b)\<close>, which is more than
  the spacing of the floats there when the divisor is at most \<open>10\<^sup>1\<^sup>5\<close>.
\<close>

lemma float_quotient_le_0_8_pos:
  assumes "0 < a" and "0 < b" and "(of_int a / of_int b :: rat) \<le> 4 / 5"
  shows "float_quotient a b \<le> float_0_8"
proof -
  define k where "k = exponent (nat a) (nat b)"
  from assms(3) have "(of_int a / of_int b :: rat) < 1" by linarith
  then have "(of_int a / of_int b :: rat) < 2 powi 0" by simp
  then have "k < 0" unfolding k_def by (rule exponent_less [OF assms(1,2)])
  then consider "k = - 1" | "k \<le> - 2" by linarith
  then show ?thesis
  proof cases
    case 1
    have "(of_int a / of_int b :: rat) * 9007199254740992 \<le> 4 / 5 * 9007199254740992"
      using assms(3) by (intro mult_right_mono) simp_all
    then have "(of_int a / of_int b :: rat) * 9007199254740992 \<le> of_int 7205759403792794"
      by simp
    then have "round_half_even (of_int a / of_int b * 9007199254740992) \<le> 7205759403792794"
      by (rule round_half_even_le)
    then have "(of_int (round_half_even (of_int a / of_int b * 9007199254740992)) :: rat)
                 \<le> of_int 7205759403792794"
      by (simp only: of_int_le_iff)
    then show ?thesis
      unfolding float_quotient_exponent_m1 [OF assms(1,2) 1 [unfolded k_def]] float_0_8_def
      by simp
  next
    case 2
    then have "max k (- 1022) + 1 \<le> - 1" by simp
    then have "(2 :: rat) powi (max k (- 1022) + 1) \<le> 2 powi (- 1)"
      by (intro power_int_increasing) simp_all
    with float_quotient_upper [OF assms(1,2), folded k_def]
    have "float_quotient a b \<le> 2 powi (- 1)" by linarith
    then show ?thesis by (simp add: float_0_8_def power_int_minus)
  qed
qed

lemma float_quotient_gt_0_8_pos:
  assumes "0 < a" and "0 < b" and "b \<le> 10 ^ 15" and "4 / 5 < (of_int a / of_int b :: rat)"
  shows "float_0_8 < float_quotient a b"
proof -
  define k where "k = exponent (nat a) (nat b)"
  have "2 powi (- 1) \<le> (of_int a / of_int b :: rat)"
    using assms(4) by (simp add: power_int_minus)
  then have "- 1 \<le> k" unfolding k_def by (rule exponent_ge [OF assms(1,2)])
  then consider "k = - 1" | "0 \<le> k" by linarith
  then show ?thesis
  proof cases
    case 1
    have "(4 * of_int b :: rat) < 5 * of_int a"
      using assms(2,4) by (simp add: field_simps)
    then have "(of_int (4 * b) :: rat) < of_int (5 * a)" by simp
    then have "4 * b < 5 * a" by (simp only: of_int_less_iff)
    with assms(3) have "14411518807585589 * b < a * 18014398509481984" by simp
    then have "(of_int (14411518807585589 * b) :: rat) < of_int (a * 18014398509481984)"
      by (simp only: of_int_less_iff)
    then have "of_int 7205759403792794 + 1 / 2 < (of_int a / of_int b :: rat) * 9007199254740992"
      using assms(2) by (simp add: field_simps)
    then have "7205759403792794 + 1 \<le> round_half_even (of_int a / of_int b * 9007199254740992)"
      by (rule round_half_even_gt)
    then have "(of_int (7205759403792794 + 1) :: rat)
                 \<le> of_int (round_half_even (of_int a / of_int b * 9007199254740992))"
      by (simp only: of_int_le_iff)
    then show ?thesis
      unfolding float_quotient_exponent_m1 [OF assms(1,2) 1 [unfolded k_def]] float_0_8_def
      by simp
  next
    case 2
    then have "(2 :: rat) powi 0 \<le> 2 powi k"
      by (intro power_int_increasing) simp_all
    moreover have "- 1022 \<le> exponent (nat a) (nat b)" using 2 by (simp add: k_def)
    from float_quotient_lower [OF assms(1,2) this]
    have "2 powi k \<le> float_quotient a b" by (simp add: k_def)
    ultimately show ?thesis by (simp add: float_0_8_def)
  qed
qed

lemma float_quotient_le_0_8:
  assumes "(of_int a / of_int b :: rat) \<le> 4 / 5"
  shows "float_quotient a b \<le> float_0_8"
proof (cases "0 < (of_int a / of_int b :: rat)")
  case True
  then have nz: "a \<noteq> 0" "b \<noteq> 0" by auto
  have "(of_int \<bar>a\<bar> / of_int \<bar>b\<bar> :: rat) = \<bar>of_int a / of_int b\<bar>" by simp
  also have "\<dots> = of_int a / of_int b" using True by (rule abs_of_pos)
  finally have "(of_int \<bar>a\<bar> / of_int \<bar>b\<bar> :: rat) \<le> 4 / 5" using assms by simp
  with nz have "float_quotient \<bar>a\<bar> \<bar>b\<bar> \<le> float_0_8"
    by (intro float_quotient_le_0_8_pos) simp_all
  then show ?thesis by (simp only: float_quotient_abs [OF True])
next
  case False
  then have "sgn (of_int a / of_int b :: rat) \<le> 0" by (simp add: not_less sgn_if)
  moreover have "0 \<le> float_quotient \<bar>a\<bar> \<bar>b\<bar>" by (rule float_quotient_nonneg) simp_all
  ultimately have "sgn (of_int a / of_int b :: rat) * float_quotient \<bar>a\<bar> \<bar>b\<bar> \<le> 0"
    by (rule mult_nonpos_nonneg)
  then have "float_quotient a b \<le> 0" by (simp only: float_quotient_sgn [of a b])
  then show ?thesis by (simp add: float_0_8_def)
qed

lemma float_quotient_gt_0_8:
  assumes "\<bar>b\<bar> \<le> 10 ^ 15" and "4 / 5 < (of_int a / of_int b :: rat)"
  shows "float_0_8 < float_quotient a b"
proof -
  from assms(2) have pos: "0 < (of_int a / of_int b :: rat)" by linarith
  then have nz: "a \<noteq> 0" "b \<noteq> 0" by auto
  have "(of_int \<bar>a\<bar> / of_int \<bar>b\<bar> :: rat) = \<bar>of_int a / of_int b\<bar>" by simp
  also have "\<dots> = of_int a / of_int b" using pos by (rule abs_of_pos)
  finally have "4 / 5 < (of_int \<bar>a\<bar> / of_int \<bar>b\<bar> :: rat)" using assms(2) by simp
  with nz assms(1) have "float_0_8 < float_quotient \<bar>a\<bar> \<bar>b\<bar>"
    by (intro float_quotient_gt_0_8_pos) simp_all
  then show ?thesis by (simp only: float_quotient_abs [OF pos])
qed

lemma greater_0_8_exact:
  assumes "b \<noteq> 0" and "\<bar>b\<bar> \<le> 10 ^ 15"
  shows "(float_0_8 < float_quotient a b) = (8 / 10 < (of_int a / of_int b :: rat))"
proof (cases "4 / 5 < (of_int a / of_int b :: rat)")
  case True
  from float_quotient_gt_0_8 [OF assms(2) True] True show ?thesis by simp
next
  case False
  then have "(of_int a / of_int b :: rat) \<le> 4 / 5" by simp
  from float_quotient_le_0_8 [OF this] False show ?thesis by simp
qed

text \<open>The range: a dividend below \<open>2\<^sup>1\<^sup>0\<^sup>2\<^sup>3\<close> never overflows, a quotient of \<open>2\<^sup>1\<^sup>0\<^sup>2\<^sup>4\<close> does.\<close>

lemma float_quotient_in_range_pos:
  assumes "0 < a" and "0 < b" and "a < 2 ^ 1023"
  shows "float_quotient a b < 2 ^ 1024"
proof -
  define k where "k = exponent (nat a) (nat b)"
  have "(of_int a :: rat) \<le> of_int a * of_int b"
    using assms(1,2) by (simp add: mult_le_cancel_left1)
  then have "(of_int a / of_int b :: rat) \<le> of_int a"
    using assms(2) by (simp add: field_simps)
  also have "(of_int a :: rat) < of_int (2 ^ 1023)"
    using assms(3) by (simp only: of_int_less_iff)
  finally have "(of_int a / of_int b :: rat) < 2 powi 1023" by simp
  then have "k < 1023" unfolding k_def by (rule exponent_less [OF assms(1,2)])
  then have "max k (- 1022) + 1 \<le> 1023" by simp
  then have "(2 :: rat) powi (max k (- 1022) + 1) \<le> 2 powi 1023"
    by (intro power_int_increasing) simp_all
  with float_quotient_upper [OF assms(1,2), folded k_def]
  have "float_quotient a b \<le> 2 powi 1023" by linarith
  then show ?thesis by simp
qed

lemma float_quotient_overflow_pos:
  assumes "0 < a" and "0 < b" and "2 ^ 1024 \<le> (of_int a / of_int b :: rat)"
  shows "2 ^ 1024 \<le> float_quotient a b"
proof -
  define k where "k = exponent (nat a) (nat b)"
  from assms(3) have "2 powi 1024 \<le> (of_int a / of_int b :: rat)" by simp
  then have k: "1024 \<le> k" unfolding k_def by (rule exponent_ge [OF assms(1,2)])
  then have "(2 :: rat) powi 1024 \<le> 2 powi k"
    by (intro power_int_increasing) simp_all
  moreover have "- 1022 \<le> exponent (nat a) (nat b)" using k by (simp add: k_def)
  from float_quotient_lower [OF assms(1,2) this]
  have "2 powi k \<le> float_quotient a b" by (simp add: k_def)
  ultimately show ?thesis by simp
qed

lemma float_quotient_in_range:
  assumes "\<bar>a\<bar> < 2 ^ 1023"
  shows "\<bar>float_quotient a b\<bar> < 2 ^ 1024"
proof (cases "a = 0 \<or> b = 0")
  case True
  then show ?thesis by (auto simp: float_quotient_def)
next
  case False
  then have "float_quotient \<bar>a\<bar> \<bar>b\<bar> < 2 ^ 1024"
    using assms by (intro float_quotient_in_range_pos) simp_all
  with False show ?thesis by (simp add: float_quotient_abs_eq)
qed

lemma float_quotient_overflow:
  assumes "b \<noteq> 0" and "2 ^ 1024 \<le> \<bar>of_int a / of_int b :: rat\<bar>"
  shows "2 ^ 1024 \<le> \<bar>float_quotient a b\<bar>"
proof -
  from assms(2) have "a \<noteq> 0" by auto
  have "(of_int \<bar>a\<bar> / of_int \<bar>b\<bar> :: rat) = \<bar>of_int a / of_int b\<bar>" by simp
  with assms(2) have "2 ^ 1024 \<le> (of_int \<bar>a\<bar> / of_int \<bar>b\<bar> :: rat)" by simp
  with \<open>a \<noteq> 0\<close> assms(1) have "2 ^ 1024 \<le> float_quotient \<bar>a\<bar> \<bar>b\<bar>"
    by (intro float_quotient_overflow_pos) simp_all
  with \<open>a \<noteq> 0\<close> assms(1) show ?thesis by (simp add: float_quotient_abs_eq)
qed

lemma truediv_in_range:
  assumes "b \<noteq> 0" and "\<bar>a\<bar> < 2 ^ 1023"
  shows "truediv a b = Inr (float_quotient a b)"
  using assms(1) float_quotient_in_range [OF assms(2), of b]
  by (simp add: truediv_def Let_def)

text \<open>The colour of a row, from the exact quotient.\<close>

lemma highlight_violation_in_range:
  assumes "Statute_Limit row \<noteq> 0" and "\<bar>Statute_Limit row\<bar> \<le> 10 ^ 15"
    and "\<bar>Days_Open row\<bar> < 2 ^ 1023"
  shows "highlight_violation row =
           Inr (replicate 9
                 (if Violation row then red
                  else if 8 / 10 < (of_int (Days_Open row) / of_int (Statute_Limit row) :: rat)
                       then yellow else green))"
proof -
  have "highlight_violation row =
          Inr (map (\<lambda>_. if Violation row then red
                         else if float_0_8 < float_quotient (Days_Open row) (Statute_Limit row)
                              then yellow else green) columns)"
    by (simp add: highlight_violation_def truediv_in_range [OF assms(1,3)])
  then show ?thesis
    by (simp only: greater_0_8_exact [OF assms(1,2)] columns_const)
qed

lemma highlight_violation_zero:
  "Statute_Limit row = 0 \<Longrightarrow> highlight_violation row = Inl ZeroDivisionError"
  by (simp add: highlight_violation_def truediv_def)

lemma highlight_violation_overflow:
  assumes "Statute_Limit row \<noteq> 0"
    and "2 ^ 1024 \<le> \<bar>of_int (Days_Open row) / of_int (Statute_Limit row) :: rat\<bar>"
  shows "highlight_violation row = Inl OverflowError"
  using assms(1) float_quotient_overflow [OF assms]
  by (simp add: highlight_violation_def truediv_def Let_def)

text \<open>
  At \<^verbatim>\<open>80000000000000001 / 100000000000000000\<close> the quotient is above \<open>4 / 5\<close> and rounds to
  the literal \<^verbatim>\<open>0.8\<close> itself, so line 207 does not hold.
\<close>

lemma highlight_violation_rounded:
  "highlight_violation row_rounded = Inr (replicate 9 green)"
proof -
  have q: "float_quotient 80000000000000001 100000000000000000 = float_0_8"
    by (simp add: float_eval float_0_8_def)
  have t: "truediv 80000000000000001 100000000000000000 = Inr float_0_8"
    unfolding truediv_def q Let_def by (simp add: float_0_8_def)
  show ?thesis
    unfolding highlight_violation_def row_rounded_def
    by (simp add: t columns_const)
qed

subsection \<open>The watchlist\<close>

text \<open>
  C1. In every record of the fixture the violation flag is set exactly when the days open
  exceed the statute limit, strictly: the record with limit 30 and 45 days open is flagged,
  the one with limit 10 and 5 days open is not, and the violating set of line 172 is the
  set of the records over their limit.
\<close>

theorem C1_fixture_flag:
  "(\<forall>p \<in> set (get_permit_data days_ago). Violation p = (Statute_Limit p < Days_Open p))
   \<and> (\<forall>p \<in> set (get_permit_data days_ago).
         Statute_Limit p = 30 \<and> Days_Open p = 45 \<longrightarrow> Violation p)
   \<and> (\<forall>p \<in> set (get_permit_data days_ago).
         Statute_Limit p = 10 \<and> Days_Open p = 5 \<longrightarrow> \<not> Violation p)
   \<and> violations (get_permit_data days_ago)
       = filter (\<lambda>p. Statute_Limit p < Days_Open p) (get_permit_data days_ago)"
  by (simp add: get_permit_data_def violations_def)

theorem C1_fixture_flag_witness:
  "map (\<lambda>p. (Statute_Limit p, Days_Open p, Violation p))
       (get_permit_data (now_days_ago clock_example))
     = [(30, 45, True), (10, 5, False), (45, 62, True)]
   \<and> map Permit_ID (violations (get_permit_data (now_days_ago clock_example)))
     = [''MIA-24-001'', ''JAX-24-882'']"
  using C1_fixture_flag [of "now_days_ago clock_example"]
  by (simp add: get_permit_data_def)

text \<open>
  C2, within the range where the float comparison is exact. For a permit with a positive
  statute limit of at most \<open>10\<^sup>1\<^sup>5\<close> days and days open below \<open>2\<^sup>1\<^sup>0\<^sup>2\<^sup>3\<close> in absolute value,
  whose flag says whether the days open exceed the limit, the colour of the row follows
  the ratio of days open to limit: green up to 0.8, yellow above 0.8 and up to 1, red
  above 1. A ratio of exactly 0.8 is green, a ratio of exactly 1 is yellow, and the row is
  red exactly when the flag is set.
\<close>

theorem C2_bands:
  fixes row :: permit
  defines "ratio \<equiv> (of_int (Days_Open row) / of_int (Statute_Limit row) :: rat)"
  assumes "0 < Statute_Limit row" and "Statute_Limit row \<le> 10 ^ 15"
    and "\<bar>Days_Open row\<bar> < 2 ^ 1023"
    and "Violation row = (Statute_Limit row < Days_Open row)"
  shows "highlight_violation row =
           Inr (replicate 9 (if ratio \<le> 8 / 10 then green
                             else if ratio \<le> 1 then yellow else red))
         \<and> (ratio = 8 / 10 \<longrightarrow> highlight_violation row = Inr (replicate 9 green))
         \<and> (ratio = 1 \<longrightarrow> highlight_violation row = Inr (replicate 9 yellow))
         \<and> (highlight_violation row = Inr (replicate 9 red)) = Violation row"
proof -
  have v: "Violation row = (1 < ratio)"
    using assms(2,5) by (simp add: ratio_def)
  have h: "highlight_violation row =
      Inr (replicate 9 (if Violation row then red else if 8 / 10 < ratio then yellow else green))"
    unfolding ratio_def using assms(2,3,4) by (intro highlight_violation_in_range) simp_all
  show ?thesis
    unfolding h v using style_distinct by (auto simp: not_less)
qed

theorem C2_bands_witness:
  "highlight_violation
     \<lparr>Permit_ID = ''MIA-24-009'', Address = ''88 Biscayne Blvd'', Type = ''Commercial HVAC'',
      Submitted = ''2026-10-27'', Status = ''In-Take'', Statute_Limit = 10, Days_Open = 8,
      Violation = False, Refund_Owed = ''$0.00''\<rparr>
   = Inr (replicate 9 green)"
  using C2_bands [of "\<lparr>Permit_ID = ''MIA-24-009'', Address = ''88 Biscayne Blvd'',
      Type = ''Commercial HVAC'', Submitted = ''2026-10-27'', Status = ''In-Take'',
      Statute_Limit = 10, Days_Open = 8, Violation = False, Refund_Owed = ''$0.00''\<rparr>"]
  by simp

text \<open>
  Without the bound on the limit the bands are not those of the ratio: the permit
  \<^const>\<open>row_rounded\<close> has a positive limit and a consistent flag, its ratio is above 0.8 and
  at most 1, and its row is green, not yellow.
\<close>

theorem C2_counterexample:
  "0 < Statute_Limit row_rounded
   \<and> Violation row_rounded = (Statute_Limit row_rounded < Days_Open row_rounded)
   \<and> 8 / 10 < (of_int (Days_Open row_rounded) / of_int (Statute_Limit row_rounded) :: rat)
   \<and> (of_int (Days_Open row_rounded) / of_int (Statute_Limit row_rounded) :: rat) \<le> 1
   \<and> highlight_violation row_rounded = Inr (replicate 9 green)
   \<and> highlight_violation row_rounded \<noteq> Inr (replicate 9 yellow)"
  using style_distinct by (simp add: highlight_violation_rounded) (simp add: row_rounded_def)

subsection \<open>One run of the script on the fixture\<close>

lemma style_rows_fixture:
  "style_rows (get_permit_data d) = Inr [replicate 9 red, replicate 9 green, replicate 9 red]"
  by (simp add: get_permit_data_def highlight_violation_in_range)

lemma violations_fixture:
  "map Permit_ID (violations (get_permit_data d)) = [''MIA-24-001'', ''JAX-24-882'']"
  "violations (get_permit_data d) \<noteq> []"
  by (simp_all add: get_permit_data_def violations_def)

lemma current_selection_cases:
  "current_selection clk ui = (if chosen ui = 1 then ''JAX-24-882'' else ''MIA-24-001'')"
  by (auto simp add: current_selection_def violations_fixture selectbox_def less_Suc_eq
      numeral_2_eq_2)

lemma target_fixture:
  "\<exists>t. iloc0 (filter (\<lambda>r. Permit_ID r = current_selection clk ui)
            (get_permit_data (now_days_ago clk))) = Inr t
       \<and> Permit_ID t = current_selection clk ui
       \<and> t \<in> set (get_permit_data (now_days_ago clk))"
  by (simp add: current_selection_cases get_permit_data_def iloc0_def)

lemma app_unfold:
  "\<exists>t sty. Permit_ID t = current_selection clk ui
     \<and> t \<in> set (get_permit_data (now_days_ago clk))
     \<and> app clk s ui =
       (case right_column clk ui
               (press_trigger (trigger_sheriff ui) (current_selection clk ui) s)
               (current_selection clk ui) t of
          (s2, panel, hist) \<Rightarrow>
            Inr (s2, \<lparr>styles = sty, target = Some t, right = panel, history = hist\<rparr>))"
proof -
  obtain t where t: "iloc0 (filter (\<lambda>r. Permit_ID r = current_selection clk ui)
            (get_permit_data (now_days_ago clk))) = Inr t"
    "Permit_ID t = current_selection clk ui" "t \<in> set (get_permit_data (now_days_ago clk))"
    using target_fixture by blast
  have "app clk s ui =
       (case right_column clk ui
               (press_trigger (trigger_sheriff ui) (current_selection clk ui) s)
               (current_selection clk ui) t of
          (s2, panel, hist) \<Rightarrow>
            Inr (s2, \<lparr>styles = [replicate 9 red, replicate 9 green, replicate 9 red],
                      target = Some t, right = panel, history = hist\<rparr>))"
    using t(1) unfolding app_def Let_def
    by (simp add: style_rows_fixture violations_fixture(2) current_selection_def [symmetric])
  with t show ?thesis by blast
qed

lemma right_column_cases:
  "right_column clk ui s1 sel t = (s2, panel, hist) \<Longrightarrow>
     (fires s1 sel \<and> panel = Package (enforce clk t sel)
        \<and> enforcement_log s2
            = enforcement_log s1 @ [new_entry clk t sel (pkg_hash (enforce clk t sel))]
        \<and> trigger s2 = False
        \<and> selected_id s2 = (if start_over ui then None else selected_id s1))
     \<or> (\<not> fires s1 sel \<and> panel = Waiting \<and> s2 = s1 \<and> hist = Some (enforcement_log s1))"
  by (auto simp: right_column_def Let_def split: if_splits)

text \<open>
  What a run does: with the flag set and the remembered id equal to the selection (after
  the trigger button was handled) it runs the pipeline, appends one record and clears the
  flag; otherwise it shows the placeholder and leaves the state as the button left it.
\<close>

lemma app_cases:
  assumes "app clk s ui = Inr (s', p)"
  defines "sel \<equiv> current_selection clk ui"
  defines "s1 \<equiv> press_trigger (trigger_sheriff ui) sel s"
  shows "\<exists>t. target p = Some t \<and> Permit_ID t = sel \<and>
     ((fires s1 sel \<and> right p = Package (enforce clk t sel)
        \<and> enforcement_log s'
            = enforcement_log s @ [new_entry clk t sel (pkg_hash (enforce clk t sel))]
        \<and> trigger s' = False
        \<and> selected_id s' = (if start_over ui then None else Some sel))
     \<or> (\<not> fires s1 sel \<and> right p = Waiting \<and> s' = s1
          \<and> history p = Some (enforcement_log s)))"
proof -
  obtain t sty where t: "Permit_ID t = sel"
    and a: "app clk s ui =
       (case right_column clk ui s1 sel t of
          (s2, panel, hist) \<Rightarrow>
            Inr (s2, \<lparr>styles = sty, target = Some t, right = panel, history = hist\<rparr>))"
    using app_unfold [of clk ui s] unfolding sel_def s1_def by blast
  obtain s2 panel hist where rc: "right_column clk ui s1 sel t = (s2, panel, hist)"
    by (cases "right_column clk ui s1 sel t") auto
  from a rc assms(1) have eq: "s' = s2" "target p = Some t" "right p = panel" "history p = hist"
    by auto
  have log1: "enforcement_log s1 = enforcement_log s"
    by (simp add: s1_def press_trigger_def)
  have sid: "fires s1 sel \<Longrightarrow> selected_id s1 = Some sel"
    by (simp add: fires_def)
  from right_column_cases [OF rc] show ?thesis
    using eq t log1 sid by auto
qed

text \<open>On the fixture a run never raises.\<close>

lemma app_total: "\<exists>s' p. app clk s ui = Inr (s', p)"
proof -
  obtain t sty where a: "app clk s ui =
       (case right_column clk ui
               (press_trigger (trigger_sheriff ui) (current_selection clk ui) s)
               (current_selection clk ui) t of
          (s2, panel, hist) \<Rightarrow>
            Inr (s2, \<lparr>styles = sty, target = Some t, right = panel, history = hist\<rparr>))"
    using app_unfold [of clk ui s] by blast
  show ?thesis unfolding a by (simp split: prod.split)
qed

subsection \<open>The trigger guard\<close>

text \<open>
  C3, as the script has it. The pipeline runs only when the trigger button was pressed in
  this run (which stores the current selection as the remembered id) or the flag was
  already set and the remembered id equals the current selection. A run in which the button
  is not pressed and the remembered id differs from the current selection raises nothing:
  it shows the placeholder, appends nothing and leaves the session state untouched, so the
  flag and the remembered id stay as they were.
\<close>

theorem C3_stale_trigger_ignored:
  "(\<forall>s' p. app clk s ui = Inr (s', p) \<and> right p \<noteq> Waiting \<longrightarrow>
       trigger_sheriff ui
       \<or> (trigger s \<and> selected_id s = Some (current_selection clk ui)))
   \<and> (\<not> trigger_sheriff ui \<and> selected_id s \<noteq> Some (current_selection clk ui) \<longrightarrow>
        (\<exists>p. app clk s ui = Inr (s, p) \<and> right p = Waiting
              \<and> history p = Some (enforcement_log s)))"
proof (intro conjI allI impI)
  fix s' p
  assume a: "app clk s ui = Inr (s', p) \<and> right p \<noteq> Waiting"
  then show "trigger_sheriff ui \<or> (trigger s \<and> selected_id s = Some (current_selection clk ui))"
    using app_cases [of clk s ui s' p]
    by (auto simp: fires_def press_trigger_def split: if_splits)
next
  assume st: "\<not> trigger_sheriff ui \<and> selected_id s \<noteq> Some (current_selection clk ui)"
  obtain s' p where a: "app clk s ui = Inr (s', p)"
    using app_total by blast
  from st have nf: "\<not> fires (press_trigger (trigger_sheriff ui) (current_selection clk ui) s)
                        (current_selection clk ui)"
    by (simp add: fires_def press_trigger_def)
  from app_cases [OF a] nf st
  have "s' = s \<and> right p = Waiting \<and> history p = Some (enforcement_log s)"
    by (auto simp: press_trigger_def)
  with a show "\<exists>p. app clk s ui = Inr (s, p) \<and> right p = Waiting
              \<and> history p = Some (enforcement_log s)"
    by blast
qed

theorem C3_stale_trigger_ignored_witness:
  "\<exists>p. app clock_example (press_trigger True ''MIA-24-001'' fresh_session)
           \<lparr>chosen = 1, trigger_sheriff = False, start_over = False\<rparr>
         = Inr (press_trigger True ''MIA-24-001'' fresh_session, p)
       \<and> right p = Waiting \<and> history p = Some []"
  using C3_stale_trigger_ignored [of clock_example
      "press_trigger True ''MIA-24-001'' fresh_session"
      "\<lparr>chosen = 1, trigger_sheriff = False, start_over = False\<rparr>"]
  by (simp add: current_selection_cases press_trigger_def fresh_session_def)

text \<open>
  The trigger was stored for MIA-24-001 (lines 247--248) and the selection is JAX-24-882
  when the guard is reached: the run ends normally, with the placeholder, the flag still
  set and MIA-24-001 still remembered.
\<close>

theorem C3_counterexample:
  "(case app clock_example (press_trigger True ''MIA-24-001'' fresh_session)
           \<lparr>chosen = 1, trigger_sheriff = False, start_over = False\<rparr> of
      Inl e \<Rightarrow> False
    | Inr (s', p) \<Rightarrow>
        current_selection clock_example \<lparr>chosen = 1, trigger_sheriff = False, start_over = False\<rparr>
          = ''JAX-24-882''
        \<and> right p = Waiting \<and> trigger s' \<and> selected_id s' = Some ''MIA-24-001'')"
proof -
  obtain s' p where a: "app clock_example (press_trigger True ''MIA-24-001'' fresh_session)
           \<lparr>chosen = 1, trigger_sheriff = False, start_over = False\<rparr> = Inr (s', p)"
    using app_total by blast
  have "right p = Waiting \<and> trigger s' \<and> selected_id s' = Some ''MIA-24-001''"
    using app_cases [OF a]
    by (auto simp: current_selection_cases press_trigger_def fresh_session_def fires_def)
  then show ?thesis
    unfolding a by (simp add: current_selection_cases)
qed

subsection \<open>The ledger\<close>

lemma iloc0_fixture:
  "iloc0 (filter (\<lambda>r. Permit_ID r = current_selection clk ui) (get_permit_data d))
     = Inr (if chosen ui = 1 then get_permit_data d ! 2 else get_permit_data d ! 0)"
  by (simp add: current_selection_cases get_permit_data_def iloc0_def)

lemma app_eval:
  "app clk s ui =
     (case right_column clk ui
             (press_trigger (trigger_sheriff ui) (current_selection clk ui) s)
             (current_selection clk ui)
             (if chosen ui = 1 then get_permit_data (now_days_ago clk) ! 2
              else get_permit_data (now_days_ago clk) ! 0) of
        (s2, panel, hist) \<Rightarrow>
          Inr (s2, \<lparr>styles = [replicate 9 red, replicate 9 green, replicate 9 red],
                    target = Some (if chosen ui = 1 then get_permit_data (now_days_ago clk) ! 2
                                   else get_permit_data (now_days_ago clk) ! 0),
                    right = panel, history = hist\<rparr>))"
  unfolding app_def Let_def
  by (simp add: style_rows_fixture violations_fixture(2) current_selection_def [symmetric]
      iloc0_fixture)

lemma app_log:
  assumes "app clk s ui = Inr (s', p)"
  shows "enforcement_log s' = enforcement_log s @ cycle_record clk p
         \<and> length (cycle_record clk p) = (if completed p then 1 else 0)"
  using app_cases [OF assms]
  by (auto simp: cycle_record_def completed_def new_entry_def press_trigger_def)

lemma run_session_length:
  "run_session s0 evs = Inr (s, pages) \<Longrightarrow> length pages = length evs"
proof (induction evs arbitrary: s0 s pages)
  case Nil
  then show ?case by simp
next
  case (Cons ev evs)
  obtain clk ui where ev: "ev = (clk, ui)" by (cases ev)
  from Cons.prems ev obtain s1 p ps where
    a: "app clk s0 ui = Inr (s1, p)" and r: "run_session s1 evs = Inr (s, ps)"
    and pg: "pages = p # ps"
    by (auto split: sum.splits prod.splits)
  from Cons.IH [OF r] pg show ?case by simp
qed

lemma run_session_log:
  "run_session s0 evs = Inr (s, pages) \<Longrightarrow>
     enforcement_log s
       = enforcement_log s0 @ concat (map2 cycle_record (map fst evs) pages)
     \<and> length (enforcement_log s) = length (enforcement_log s0) + length (filter completed pages)"
proof (induction evs arbitrary: s0 s pages)
  case Nil
  then show ?case by simp
next
  case (Cons ev evs)
  obtain clk ui where ev: "ev = (clk, ui)" by (cases ev)
  from Cons.prems ev obtain s1 p ps where
    a: "app clk s0 ui = Inr (s1, p)" and r: "run_session s1 evs = Inr (s, ps)"
    and pg: "pages = p # ps"
    by (auto split: sum.splits prod.splits)
  from Cons.IH [OF r] app_log [OF a] pg ev show ?case by auto
qed

lemma run_session_total: "\<exists>s pages. run_session s0 evs = Inr (s, pages)"
proof (induction evs arbitrary: s0)
  case Nil
  then show ?case by simp
next
  case (Cons ev evs)
  obtain clk ui where ev: "ev = (clk, ui)" by (cases ev)
  obtain s1 p where a: "app clk s0 ui = Inr (s1, p)" using app_total by blast
  obtain s ps where r: "run_session s1 evs = Inr (s, ps)" using Cons.IH by blast
  show ?case by (simp add: ev a r)
qed

lemma run_session_append:
  "run_session s0 evs = Inr (s1, ps) \<Longrightarrow> run_session s1 evs' = Inr (s2, ps') \<Longrightarrow>
     run_session s0 (evs @ evs') = Inr (s2, ps @ ps')"
proof (induction evs arbitrary: s0 ps)
  case Nil
  then show ?case by simp
next
  case (Cons ev evs)
  obtain clk ui where ev: "ev = (clk, ui)" by (cases ev)
  from Cons.prems(1) ev obtain sa p qs where
    a: "app clk s0 ui = Inr (sa, p)" and r: "run_session sa evs = Inr (s1, qs)"
    and pg: "ps = p # qs"
    by (auto split: sum.splits prod.splits)
  from Cons.IH [OF r Cons.prems(2)] show ?case by (simp add: ev a pg)
qed

text \<open>
  C4. After the runs of a session that began with an empty ledger, the ledger has exactly
  one record per completed cycle, in the order of completion: it is the concatenation,
  run by run, of the record of each completed cycle (permit id, address, time of
  completion, first digits of the proof). Every run leaves the old ledger as a prefix of
  the new one and appends one record when it completes a cycle and none otherwise, so no
  entry is ever changed, moved or removed.
\<close>

theorem C4_ledger_append_only:
  "(\<forall>s pages. run_session fresh_session evs = Inr (s, pages) \<longrightarrow>
       length (enforcement_log s) = length (filter completed pages)
       \<and> enforcement_log s = concat (map2 cycle_record (map fst evs) pages))
   \<and> (\<forall>s0 clk ui s' p. app clk s0 ui = Inr (s', p) \<longrightarrow>
       enforcement_log s' = enforcement_log s0 @ cycle_record clk p
       \<and> length (cycle_record clk p) = (if completed p then 1 else 0))
   \<and> (\<forall>s0 s pages. run_session s0 evs = Inr (s, pages) \<longrightarrow>
       prefix (enforcement_log s0) (enforcement_log s))"
proof (intro conjI [of "\<forall>s pages. _ s pages"] conjI [of "\<forall>s0 clk ui s' p. _ s0 clk ui s' p"] allI impI)
  fix s pages
  assume r: "run_session fresh_session evs = Inr (s, pages)"
  have l: "enforcement_log fresh_session = []"
    by (simp add: fresh_session_def)
  from run_session_log [OF r]
  show "length (enforcement_log s) = length (filter completed pages)
       \<and> enforcement_log s = concat (map2 cycle_record (map fst evs) pages)"
    unfolding l by auto
next
  fix s0 clk ui s' p
  assume a: "app clk s0 ui = Inr (s', p)"
  from app_log [OF a]
  show "enforcement_log s' = enforcement_log s0 @ cycle_record clk p
       \<and> length (cycle_record clk p) = (if completed p then 1 else 0)" .
next
  fix s0 s pages
  assume r: "run_session s0 evs = Inr (s, pages)"
  from run_session_log [OF r] show "prefix (enforcement_log s0) (enforcement_log s)"
    by (simp add: prefix_def)
qed


theorem C4_ledger_append_only_witness:
  "\<exists>s pages. run_session fresh_session session_example = Inr (s, pages)
     \<and> map completed pages = [True, False, True]
     \<and> length (enforcement_log s) = 2
     \<and> map entry_Permit_ID (enforcement_log s) = [''MIA-24-001'', ''JAX-24-882'']"
proof -
  obtain s pages where r: "run_session fresh_session session_example = Inr (s, pages)"
    using run_session_total by blast
  have e: "map completed pages = [True, False, True]
      \<and> map entry_Permit_ID (enforcement_log s) = [''MIA-24-001'', ''JAX-24-882'']"
    using r
    by (auto simp: session_example_def app_eval current_selection_cases right_column_def
        press_trigger_def fires_def fresh_session_def Let_def completed_def new_entry_def
        clock_example_def split: sum.splits prod.splits if_splits)
  from C4_ledger_append_only [of session_example] r e show ?thesis
    by auto
qed


subsection \<open>Completion\<close>




subsection \<open>One cycle at a time\<close>

text \<open>
  C9, as the script has it. A run of the script that reaches its end appends at most one
  record and, when it completes a cycle, leaves the flag cleared. A press of the trigger
  button is never rejected, whatever the flag and the remembered id were: the run
  overwrites the remembered id with the current selection, runs the pipeline for it,
  appends its record and clears the flag; the remembered id is then the current
  selection, unless Start Over is pressed in the same run, which clears it.
\<close>

theorem C9_one_cycle_per_run:
  "(\<forall>s' p. app clk s ui = Inr (s', p) \<longrightarrow>
       length (enforcement_log s') \<le> length (enforcement_log s) + 1
       \<and> (completed p \<longrightarrow> \<not> trigger s'))
   \<and> (trigger_sheriff ui \<longrightarrow>
        (\<exists>s' p t. app clk s ui = Inr (s', p) \<and> target p = Some t
           \<and> Permit_ID t = current_selection clk ui
           \<and> right p = Package (enforce clk t (current_selection clk ui))
           \<and> enforcement_log s' = enforcement_log s
                @ [new_entry clk t (current_selection clk ui)
                     (pkg_hash (enforce clk t (current_selection clk ui)))]
           \<and> \<not> trigger s'
           \<and> selected_id s'
               = (if start_over ui then None else Some (current_selection clk ui))))"
proof (intro conjI allI impI)
  fix s' p
  assume a: "app clk s ui = Inr (s', p)"
  from app_log [OF a] show "length (enforcement_log s') \<le> length (enforcement_log s) + 1"
    by (auto split: if_splits)
  assume "completed p"
  with app_cases [OF a] show "\<not> trigger s'"
    by (auto simp: completed_def)
next
  assume c: "trigger_sheriff ui"
  obtain s' p where a: "app clk s ui = Inr (s', p)"
    using app_total by blast
  from c have f: "fires (press_trigger (trigger_sheriff ui) (current_selection clk ui) s)
                    (current_selection clk ui)"
    by (simp add: fires_def press_trigger_def)
  from app_cases [OF a] f a
  show "\<exists>s' p t. app clk s ui = Inr (s', p) \<and> target p = Some t
           \<and> Permit_ID t = current_selection clk ui
           \<and> right p = Package (enforce clk t (current_selection clk ui))
           \<and> enforcement_log s' = enforcement_log s
                @ [new_entry clk t (current_selection clk ui)
                     (pkg_hash (enforce clk t (current_selection clk ui)))]
           \<and> \<not> trigger s'
           \<and> selected_id s'
               = (if start_over ui then None else Some (current_selection clk ui))"
    by (auto simp: press_trigger_def)
qed

theorem C9_one_cycle_per_run_witness:
  "\<exists>s' p. app clock_example (press_trigger True ''MIA-24-001'' fresh_session)
             \<lparr>chosen = 1, trigger_sheriff = True, start_over = False\<rparr> = Inr (s', p)
     \<and> map entry_Permit_ID (enforcement_log s') = [''JAX-24-882'']
     \<and> \<not> trigger s' \<and> selected_id s' = Some ''JAX-24-882''"
  using C9_one_cycle_per_run [of clock_example "press_trigger True ''MIA-24-001'' fresh_session"
      "\<lparr>chosen = 1, trigger_sheriff = True, start_over = False\<rparr>"]
  by (auto simp: current_selection_cases press_trigger_def fresh_session_def new_entry_def)

text \<open>
  The flag is set for MIA-24-001 and the trigger button is pressed with JAX-24-882
  selected: nothing is rejected, the cycle for JAX-24-882 completes and its record is
  appended.
\<close>

theorem C9_counterexample:
  "(case app clock_example (press_trigger True ''MIA-24-001'' fresh_session)
           \<lparr>chosen = 1, trigger_sheriff = True, start_over = False\<rparr> of
      Inl e \<Rightarrow> False
    | Inr (s', p) \<Rightarrow>
        trigger (press_trigger True ''MIA-24-001'' fresh_session)
        \<and> completed p
        \<and> map entry_Permit_ID (enforcement_log s') = [''JAX-24-882'']
        \<and> selected_id s' = Some ''JAX-24-882'')"
proof -
  obtain s' p where a: "app clock_example (press_trigger True ''MIA-24-001'' fresh_session)
           \<lparr>chosen = 1, trigger_sheriff = True, start_over = False\<rparr> = Inr (s', p)"
    using app_total by blast
  have "completed p \<and> map entry_Permit_ID (enforcement_log s') = [''JAX-24-882'']
        \<and> selected_id s' = Some ''JAX-24-882''"
    using app_cases [OF a]
    by (auto simp: completed_def fires_def press_trigger_def fresh_session_def
        current_selection_cases new_entry_def)
  then show ?thesis unfolding a by (simp add: press_trigger_def)
qed


subsection \<open>No validation of the statute limit\<close>

text \<open>
  C8, as the script has it. The row colouring validates nothing and signals no
  InvalidPermitData. For every permit whose statute limit is not zero, positive or
  negative, and at most \<open>10\<^sup>1\<^sup>5\<close> in absolute value, with days open below \<open>2\<^sup>1\<^sup>0\<^sup>2\<^sup>3\<close> in
  absolute value, it returns the colour the flag and the ratio give and raises nothing.
  The division is not guarded: a statute limit of zero raises \<^verbatim>\<open>ZeroDivisionError\<close> in the
  division itself, and a ratio of \<open>2\<^sup>1\<^sup>0\<^sup>2\<^sup>4\<close> or more in absolute value raises
  \<^verbatim>\<open>OverflowError\<close>.
\<close>

theorem C8_no_validation:
  "(Statute_Limit row \<noteq> 0 \<and> \<bar>Statute_Limit row\<bar> \<le> 10 ^ 15 \<and> \<bar>Days_Open row\<bar> < 2 ^ 1023 \<longrightarrow>
      highlight_violation row =
        Inr (replicate 9
              (if Violation row then red
               else if 8 / 10 < (of_int (Days_Open row) / of_int (Statute_Limit row) :: rat)
                    then yellow else green)))
   \<and> (Statute_Limit row = 0 \<longrightarrow> highlight_violation row = Inl ZeroDivisionError)
   \<and> (Statute_Limit row \<noteq> 0
        \<and> 2 ^ 1024 \<le> \<bar>of_int (Days_Open row) / of_int (Statute_Limit row) :: rat\<bar> \<longrightarrow>
      highlight_violation row = Inl OverflowError)"
  using highlight_violation_in_range [of row] highlight_violation_zero [of row]
    highlight_violation_overflow [of row]
  by blast

theorem C8_no_validation_witness:
  "highlight_violation
     \<lparr>Permit_ID = ''MIA-24-001'', Address = ''120 Ocean Dr, Miami'', Type = ''Residential Reno'',
      Submitted = ''2026-09-20'', Status = ''Under Review'', Statute_Limit = 30, Days_Open = 45,
      Violation = True, Refund_Owed = ''$450.00''\<rparr>
   = Inr (replicate 9 red)
   \<and> highlight_violation
     \<lparr>Permit_ID = ''MIA-24-001'', Address = ''120 Ocean Dr, Miami'', Type = ''Residential Reno'',
      Submitted = ''2026-09-20'', Status = ''Under Review'', Statute_Limit = 0, Days_Open = 45,
      Violation = True, Refund_Owed = ''$450.00''\<rparr>
   = Inl ZeroDivisionError
   \<and> highlight_violation
     \<lparr>Permit_ID = ''MIA-24-001'', Address = ''120 Ocean Dr, Miami'', Type = ''Residential Reno'',
      Submitted = ''2026-09-20'', Status = ''Under Review'', Statute_Limit = 1,
      Days_Open = 2 ^ 1024, Violation = True, Refund_Owed = ''$450.00''\<rparr>
   = Inl OverflowError"
  using C8_no_validation [of "\<lparr>Permit_ID = ''MIA-24-001'', Address = ''120 Ocean Dr, Miami'',
      Type = ''Residential Reno'', Submitted = ''2026-09-20'', Status = ''Under Review'',
      Statute_Limit = 30, Days_Open = 45, Violation = True, Refund_Owed = ''$450.00''\<rparr>"]
    C8_no_validation [of "\<lparr>Permit_ID = ''MIA-24-001'', Address = ''120 Ocean Dr, Miami'',
      Type = ''Residential Reno'', Submitted = ''2026-09-20'', Status = ''Under Review'',
      Statute_Limit = 0, Days_Open = 45, Violation = True, Refund_Owed = ''$450.00''\<rparr>"]
    C8_no_validation [of "\<lparr>Permit_ID = ''MIA-24-001'', Address = ''120 Ocean Dr, Miami'',
      Type = ''Residential Reno'', Submitted = ''2026-09-20'', Status = ''Under Review'',
      Statute_Limit = 1, Days_Open = 2 ^ 1024, Violation = True, Refund_Owed = ''$450.00''\<rparr>"]
  by simp

text \<open>
  A permit with the statute limit \<open>-10\<close> is not rejected: its row is coloured like any
  other.
\<close>

theorem C8_counterexample:
  "highlight_violation
     \<lparr>Permit_ID = ''MIA-24-009'', Address = ''88 Biscayne Blvd'', Type = ''Commercial HVAC'',
      Submitted = ''2026-10-30'', Status = ''In-Take'', Statute_Limit = - 10, Days_Open = 5,
      Violation = True, Refund_Owed = ''$0.00''\<rparr>
   = Inr (replicate 9 red)"
  by (simp add: highlight_violation_in_range)

subsection \<open>The proof digest\<close>

lemma length_hex32: "length (hex32 w) = 8"
  by (simp add: hex32_def)

lemma hex_digit_in: "hex_digit n \<in> set ''0123456789abcdef''"
  unfolding hex_digit_def by (rule nth_mem) simp

lemma set_hex32: "set (hex32 w) \<subseteq> set ''0123456789abcdef''"
  unfolding hex32_def using hex_digit_in by auto

lemma length_hexdigest: "length (hexdigest hs) = 64"
  by (cases hs rule: hexdigest.cases) (simp add: length_hex32)

lemma set_hexdigest: "set (hexdigest hs) \<subseteq> set ''0123456789abcdef''"
proof (cases hs rule: hexdigest.cases)
  case (1 a b c d e f g h)
  show ?thesis
    unfolding 1 hexdigest.simps set_append
    using set_hex32 [of a] set_hex32 [of b] set_hex32 [of c] set_hex32 [of d]
      set_hex32 [of e] set_hex32 [of f] set_hex32 [of g] set_hex32 [of h]
    by blast
qed










subsection \<open>The timestamp printed in the PDF\<close>

text \<open>
  C10. The proof of a cycle is the digest of the notice text and the \<^verbatim>\<open>time.time()\<close>
  nonce; the clock reading printed in the footer of the PDF is no input to it. Changing
  that reading alone changes neither the digest, nor the proof line of the PDF, nor the
  session state the run leaves; it changes the timestamp line, so the same digest can
  be printed beside any timestamp.
\<close>

theorem C10_timestamp_unbound:
  "pkg_hash (enforce clk t sel)
     = hash_data (generate_letter_text t (now_letter_date clk) @ now_time_time clk)
   \<and> pkg_hash (enforce (clk\<lparr>now_isoformat := ts\<rparr>) t sel) = pkg_hash (enforce clk t sel)
   \<and> pdf_proof (pkg_pdf (enforce (clk\<lparr>now_isoformat := ts\<rparr>) t sel))
       = ''CRYPTOGRAPHIC PROOF: '' @ pkg_hash (enforce clk t sel)
   \<and> pdf_timestamp (pkg_pdf (enforce (clk\<lparr>now_isoformat := ts\<rparr>) t sel))
       = ''TIMESTAMP: '' @ ts
   \<and> (pkg_pdf (enforce (clk\<lparr>now_isoformat := ts\<rparr>) t sel) = pkg_pdf (enforce clk t sel))
       = (ts = now_isoformat clk)
   \<and> map_sum id fst (app (clk\<lparr>now_isoformat := ts\<rparr>) s ui) = map_sum id fst (app clk s ui)"
proof -
  have "map_sum id fst (app (clk\<lparr>now_isoformat := ts\<rparr>) s ui) = map_sum id fst (app clk s ui)"
    by (simp add: app_eval current_selection_cases right_column_def enforce_def Let_def
        new_entry_def)
  then show ?thesis
    by (simp add: enforce_def Let_def create_pdf_letter_def)
qed

theorem C10_timestamp_unbound_witness:
  "pkg_hash (enforce (clock_example\<lparr>now_isoformat := ''2027-01-01T00:00:00''\<rparr>)
       (get_permit_data (now_days_ago clock_example) ! 0) ''MIA-24-001'')
     = pkg_hash (enforce clock_example
         (get_permit_data (now_days_ago clock_example) ! 0) ''MIA-24-001'')
   \<and> pdf_timestamp (pkg_pdf (enforce (clock_example\<lparr>now_isoformat := ''2027-01-01T00:00:00''\<rparr>)
       (get_permit_data (now_days_ago clock_example) ! 0) ''MIA-24-001''))
     = ''TIMESTAMP: 2027-01-01T00:00:00''
   \<and> pdf_timestamp (pkg_pdf (enforce clock_example
       (get_permit_data (now_days_ago clock_example) ! 0) ''MIA-24-001''))
     = ''TIMESTAMP: 2026-11-04T10:15:03.130001''"
  using C10_timestamp_unbound [of clock_example
      "get_permit_data (now_days_ago clock_example) ! 0" "''MIA-24-001''"
      "''2027-01-01T00:00:00''"]
    C10_timestamp_unbound [of clock_example
      "get_permit_data (now_days_ago clock_example) ! 0" "''MIA-24-001''"
      "now_isoformat clock_example"]
  by (simp add: clock_example_def)

subsection \<open>Two cycles on the same permit\<close>
























text \<open>
  No text makes the digest injective in the nonce: there are infinitely many strings and
  finitely many digests. (The strings are arbitrary here, not only readings of a clock.)
\<close>

lemma digest_not_injective:
  "\<exists>n1 n2. n1 \<noteq> n2 \<and> hash_data (text @ n1) = hash_data (text @ n2)"
proof -
  let ?f = "\<lambda>n. hash_data (text @ n)"
  have "range ?f \<subseteq> {xs. set xs \<subseteq> set ''0123456789abcdef'' \<and> length xs = 64}"
    by (auto simp: hash_data_def length_hexdigest dest: subsetD [OF set_hexdigest])
  moreover have "finite {xs. set xs \<subseteq> set ''0123456789abcdef'' \<and> length xs = 64}"
    by (rule finite_lists_length_eq) simp
  ultimately have fin: "finite (range ?f)"
    by (rule finite_subset)
  have "\<not> inj ?f"
  proof
    assume "inj ?f"
    from finite_imageD [OF fin this] have "finite (UNIV :: string set)" .
    then show False by (simp add: infinite_UNIV_listI)
  qed
  then show ?thesis
    unfolding inj_on_def by blast
qed




end
